theory Spec2Isabelle
  imports Main "HOL-Library.Word"
begin

section \<open>Data model\<close>

text \<open>
  The clients exchange raw PCM audio with a Socket.IO server. A byte string is a list of
  8-bit words, a numpy \<^verbatim>\<open>int16\<close> array a list of 16-bit words.

  Everything a function does to a collaborator (the Socket.IO client \<^verbatim>\<open>sio\<close>, the
  sounddevice input stream, the playback output stream) is recorded, in program order, as an
  \<open>effect\<close>: the call that was made. Console output is not recorded. Calls on the audio
  devices are taken to return; a call of \<^verbatim>\<open>sio.emit\<close> may raise, and the model follows the
  handler the source puts around it.
\<close>

type_synonym byte = "8 word"
type_synonym sample = "16 word"
type_synonym bytes = "byte list"

datatype py_error = ValueError

datatype effect =
    Emit string "bytes option"
  | InputStream_open nat
  | Stream_start nat
  | Stream_stop nat
  | Stream_close nat
  | Out_write "sample list"

text \<open>
  \<^verbatim>\<open>indata.tobytes()\<close> and \<^verbatim>\<open>np.frombuffer(data, dtype=np.int16)\<close>, for the little-endian
  byte order of the target board. \<^verbatim>\<open>frombuffer\<close> raises \<^verbatim>\<open>ValueError\<close> when the buffer
  length is not a multiple of the element size.
\<close>

fun tobytes :: "sample list \<Rightarrow> bytes" where
  "tobytes [] = []"
| "tobytes (w # ws) = ucast w # ucast (drop_bit 8 w) # tobytes ws"

fun frombuffer_int16 :: "bytes \<Rightarrow> py_error + sample list" where
  "frombuffer_int16 [] = Inr []"
| "frombuffer_int16 [b] = Inl ValueError"
| "frombuffer_int16 (lo # hi # bs) =
     (case frombuffer_int16 bs of
        Inl e \<Rightarrow> Inl e
      | Inr ws \<Rightarrow> Inr (word_cat hi lo # ws))"

section \<open>client5\_fc4\_c4.py: query and context recording with gated playback\<close>

text \<open>
  The module globals \<^verbatim>\<open>recording\<close>, \<^verbatim>\<open>stream\<close>, \<^verbatim>\<open>context_active\<close>, \<^verbatim>\<open>context_paused\<close>,
  the two \<^verbatim>\<open>threading.Event\<close>s and the playback queue form the state. An input stream object
  is a handle with an identifier (\<open>next_sid\<close> supplies fresh ones) and its \<^verbatim>\<open>active\<close> flag.
\<close>

record stream_handle =
  sid :: nat
  active :: bool

record client_state =
  recording :: bool
  stream :: "stream_handle option"
  context_active :: bool
  context_paused :: bool
  playback_enabled :: bool
  playback_worker_running :: bool
  playback_queue :: "sample list list"
  next_sid :: nat
  effects :: "effect list"

text \<open>
  The state once the module is loaded: every flag false, no stream, an empty queue, and the
  playback worker (started at import, which waits for it) running.
\<close>

definition initial_state :: client_state where
  "initial_state =
     \<lparr> recording = False, stream = None, context_active = False, context_paused = False,
       playback_enabled = False, playback_worker_running = True, playback_queue = [],
       next_sid = 0, effects = [] \<rparr>"

text \<open>
  \<^verbatim>\<open>sio.emit(event[, data])\<close>. In this file every emit is guarded by a handler that
  passes or prints, so the call is recorded and control continues whether or not it raised.
\<close>

definition emit :: "string \<Rightarrow> bytes option \<Rightarrow> client_state \<Rightarrow> client_state" where
  "emit ev data s = s\<lparr>effects := effects s @ [Emit ev data]\<rparr>"

text \<open>\<^verbatim>\<open>stream = sd.InputStream(..., callback=audio_callback); stream.start()\<close>\<close>

definition new_input_stream :: "client_state \<Rightarrow> client_state" where
  "new_input_stream s =
     s\<lparr>stream := Some \<lparr>sid = next_sid s, active = True\<rparr>,
       next_sid := Suc (next_sid s),
       effects := effects s @ [InputStream_open (next_sid s), Stream_start (next_sid s)]\<rparr>"

text \<open>\<^verbatim>\<open>stream.stop(); stream.close(); stream = None\<close>, under \<^verbatim>\<open>if stream:\<close>\<close>

definition close_stream :: "client_state \<Rightarrow> client_state" where
  "close_stream s =
     (case stream s of
        None \<Rightarrow> s
      | Some h \<Rightarrow>
          s\<lparr>stream := None,
            effects := effects s @ [Stream_stop (sid h), Stream_close (sid h)]\<rparr>)"

definition audio_callback :: "sample list \<Rightarrow> client_state \<Rightarrow> client_state" where
  "audio_callback indata s =
     (let raw = tobytes indata in
      if recording s then emit ''audio_chunk_query'' (Some raw) s
      else if context_active s \<and> \<not> context_paused s then
        emit ''audio_chunk_context'' (Some raw) s
      else s)"

definition start_recording :: "client_state \<Rightarrow> client_state" where
  "start_recording s =
     (if recording s then s
      else
        let s1 = s\<lparr>playback_enabled := False\<rparr>;
            s2 = emit ''stop_server_stream'' None s1;
            s3 = (if context_active s2 then s2\<lparr>context_paused := True\<rparr> else s2);
            s4 = new_input_stream s3
        in s4\<lparr>recording := True\<rparr>)"

definition stop_recording :: "client_state \<Rightarrow> client_state" where
  "stop_recording s =
     (if \<not> recording s then s
      else
        let s1 = s\<lparr>recording := False\<rparr>;
            s2 = close_stream s1;
            s3 = emit ''audio_complete_query'' None s2
        in s3\<lparr>playback_enabled := True\<rparr>)"

definition start_context_recording :: "client_state \<Rightarrow> client_state" where
  "start_context_recording s =
     (if context_active s then s
      else
        let s1 = s\<lparr>context_active := True\<rparr>;
            s2 = s1\<lparr>context_paused := recording s1\<rparr>
        in if \<not> recording s2 \<and> \<not> (case stream s2 of None \<Rightarrow> False | Some h \<Rightarrow> active h)
           then new_input_stream s2
           else s2)"

definition stop_context_recording :: "client_state \<Rightarrow> client_state" where
  "stop_context_recording s =
     (if \<not> context_active s then s
      else
        let s1 = emit ''audio_complete_context'' None s;
            s2 = s1\<lparr>context_active := False\<rparr>
        in if \<not> recording s2 then close_stream s2 else s2)"

definition toggle_context :: "client_state \<Rightarrow> client_state" where
  "toggle_context s =
     (if context_active s then stop_context_recording s else start_context_recording s)"

definition on_server_audio_chunk :: "bytes \<Rightarrow> client_state \<Rightarrow> py_error + client_state" where
  "on_server_audio_chunk data s =
     (if \<not> playback_enabled s then Inr s
      else
        case frombuffer_int16 data of
          Inl e \<Rightarrow> Inl e
        | Inr arr \<Rightarrow> Inr (s\<lparr>playback_queue := playback_queue s @ [arr]\<rparr>))"

definition on_server_audio_complete :: "client_state \<Rightarrow> client_state" where
  "on_server_audio_complete s =
     (if context_active s \<and> \<not> recording s then s\<lparr>context_paused := False\<rparr> else s)"

text \<open>
  The inner loop of the playback worker,
  \<^verbatim>\<open>while not playback_queue.empty(): playback_queue.get_nowait()\<close>.
\<close>

fun drain :: "'a list \<Rightarrow> 'a list" where
  "drain [] = []"
| "drain (x # q) = drain q"

text \<open>
  One pass through the body of \<^verbatim>\<open>while playback_worker_running.is_set()\<close>: with playback
  disabled the queue is drained; otherwise one array is taken from the queue, if there is
  one before the timeout, and written to the output stream (the reshape to one column keeps
  the samples).
\<close>

definition playback_worker_iter :: "client_state \<Rightarrow> client_state" where
  "playback_worker_iter s =
     (if \<not> playback_worker_running s then s
      else if \<not> playback_enabled s then s\<lparr>playback_queue := drain (playback_queue s)\<rparr>
      else
        case playback_queue s of
          [] \<Rightarrow> s
        | arr # q \<Rightarrow> s\<lparr>playback_queue := q, effects := effects s @ [Out_write arr]\<rparr>)"

text \<open>
  What can happen to the client: the two buttons (press and release of button 1, a press of
  button 2), the two server messages, a frame delivered by the capture stream, and a pass
  of the playback worker. A handler that raises leaves the globals as they were.
\<close>

datatype event =
    StartQuery
  | StopQuery
  | ToggleContext
  | ReplyChunk bytes
  | ReplyComplete
  | Frame "sample list"
  | PlaybackPass

fun step :: "event \<Rightarrow> client_state \<Rightarrow> client_state" where
  "step StartQuery s = start_recording s"
| "step StopQuery s = stop_recording s"
| "step ToggleContext s = toggle_context s"
| "step (ReplyChunk data) s =
     (case on_server_audio_chunk data s of Inl e \<Rightarrow> s | Inr s' \<Rightarrow> s')"
| "step ReplyComplete s = on_server_audio_complete s"
| "step (Frame indata) s = audio_callback indata s"
| "step PlaybackPass s = playback_worker_iter s"

fun run :: "event list \<Rightarrow> client_state \<Rightarrow> client_state" where
  "run [] s = s"
| "run (e # es) s = run es (step e s)"

text \<open>The effects a transition adds to those already recorded.\<close>

definition new_effects :: "client_state \<Rightarrow> client_state \<Rightarrow> effect list" where
  "new_effects s s' = drop (length (effects s)) (effects s')"

text \<open>The messages among a list of effects, without the device calls.\<close>

primrec emits :: "effect list \<Rightarrow> (string \<times> bytes option) list" where
  "emits [] = []"
| "emits (x # xs) = (case x of Emit ev d \<Rightarrow> (ev, d) # emits xs | _ \<Rightarrow> emits xs)"

text \<open>The two state predicates the arbitration is meant to keep.\<close>

definition query_mutes :: "client_state \<Rightarrow> bool" where
  "query_mutes s = (recording s \<longrightarrow> \<not> playback_enabled s)"

definition paused_is_active :: "client_state \<Rightarrow> bool" where
  "paused_is_active s = (context_paused s \<longrightarrow> context_active s)"

text \<open>
  A sequence of events, run from \<open>s\<close>, never presses the context button to switch context
  off at a moment when context is paused.
\<close>

fun never_off_while_paused :: "event list \<Rightarrow> client_state \<Rightarrow> bool" where
  "never_off_while_paused [] s = True"
| "never_off_while_paused (e # es) s =
     (\<not> (e = ToggleContext \<and> context_active s \<and> context_paused s) \<and>
      never_off_while_paused es (step e s))"

section \<open>client5\_f4\_button.py: record, then send in chunks\<close>

text \<open>
  This client queues the captured frames (each already a byte string) in \<^verbatim>\<open>audio_queue\<close>
  and sends them after the recording has stopped. \<^verbatim>\<open>send_audio_to_server\<close> first moves
  every queued item into the local list \<^verbatim>\<open>chunks\<close>
  (\<^verbatim>\<open>chunks.append(audio_queue.get_nowait())\<close> until the queue is empty).
\<close>

definition CHUNK_SIZE :: nat where
  "CHUNK_SIZE = 4096"

fun take_queued :: "'a list \<Rightarrow> 'a list \<Rightarrow> 'a list \<times> 'a list" where
  "take_queued chunks [] = (chunks, [])"
| "take_queued chunks (x # q) = take_queued (chunks @ [x]) q"

text \<open>
  The loop \<^verbatim>\<open>for i in range(0, len(data), n): sio.emit("audio_chunk", data[i:i+n])\<close>, from
  index \<open>i\<close> on. The same loop, with \<open>n = 4096\<close>, is in client4.py and client\_sinewave.py.
  Here an emit that raises ends the loop, so the transport is a parameter: \<open>accepts k\<close>
  tells whether the \<open>k\<close>-th call of \<^verbatim>\<open>sio.emit\<close> returns. The result is the list of calls
  made and, when nothing raised, the number of the next call. (\<^verbatim>\<open>range\<close> with step 0
  raises \<^verbatim>\<open>ValueError\<close> before the first pass: no call is made.)
\<close>

function emit_chunks ::
  "(nat \<Rightarrow> bool) \<Rightarrow> nat \<Rightarrow> nat \<Rightarrow> nat \<Rightarrow> bytes \<Rightarrow> effect list \<times> nat option" where
  "emit_chunks accepts n k i data =
     (if n = 0 then ([], None)
      else if i < length data then
        (if accepts k then
           (case emit_chunks accepts n (Suc k) (i + n) data of
              (calls, r) \<Rightarrow> (Emit ''audio_chunk'' (Some (take n (drop i data))) # calls, r))
         else ([Emit ''audio_chunk'' (Some (take n (drop i data)))], None))
      else ([], Some k))"
  by pat_completeness auto
termination
  by (relation "measure (\<lambda>(accepts, n, k, i, data). length data - i)") auto

declare emit_chunks.simps [simp del]

text \<open>
  \<^verbatim>\<open>send_audio_to_server\<close> returns the calls made and the queue it leaves. With nothing queued
  it returns at once. Otherwise the chunks are joined and sent; the handler around the
  loop and the final \<^verbatim>\<open>sio.emit("audio_complete")\<close> catches a raising emit, and what follows
  the raising call is not sent.
\<close>

definition send_audio_to_server ::
  "(nat \<Rightarrow> bool) \<Rightarrow> bytes list \<Rightarrow> effect list \<times> bytes list" where
  "send_audio_to_server accepts audio_queue =
     (case take_queued [] audio_queue of
        (chunks, q) \<Rightarrow>
          if chunks = [] then ([], q)
          else
            let data = concat chunks in
            (case emit_chunks accepts CHUNK_SIZE 0 0 data of
               (calls, None) \<Rightarrow> (calls, q)
             | (calls, Some k) \<Rightarrow> (calls @ [Emit ''audio_complete'' None], q)))"

text \<open>
  The receiving side of the chunk protocol sees the data of the \<^verbatim>\<open>audio_chunk\<close> messages,
  in the order sent, and joins them.
\<close>

primrec payloads :: "effect list \<Rightarrow> bytes list" where
  "payloads [] = []"
| "payloads (x # xs) =
     (case x of
        Emit ev (Some d) \<Rightarrow> if ev = ''audio_chunk'' then d # payloads xs else payloads xs
      | _ \<Rightarrow> payloads xs)"

definition chunk_emit :: "bytes \<Rightarrow> effect" where
  "chunk_emit c = Emit ''audio_chunk'' (Some c)"

section \<open>Basic facts\<close>

lemmas transition_defs =
  start_recording_def stop_recording_def start_context_recording_def
  stop_context_recording_def toggle_context_def on_server_audio_chunk_def
  on_server_audio_complete_def audio_callback_def playback_worker_iter_def
  emit_def new_input_stream_def close_stream_def



lemma payloads_chunk_emits: "payloads (map chunk_emit cs) = cs"
  by (induction cs) (simp_all add: chunk_emit_def)




text \<open>
  What the code does with the capture stream when a query interrupts context: the query
  opens a second stream over the first, and its release closes that second stream and
  leaves \<^verbatim>\<open>stream\<close> empty although context is still switched on.
\<close>

lemma query_over_context_effects:
  "effects (run [ToggleContext, StartQuery, StopQuery] initial_state) =
     [InputStream_open 0, Stream_start 0,
      Emit ''stop_server_stream'' None, InputStream_open 1, Stream_start 1,
      Stream_stop 1, Stream_close 1, Emit ''audio_complete_query'' None] \<and>
   stream (run [ToggleContext, StartQuery, StopQuery] initial_state) = None \<and>
   context_active (run [ToggleContext, StartQuery, StopQuery] initial_state)"
  by (simp add: initial_state_def transition_defs Let_def)

section \<open>A query mutes playback\<close>

lemma query_mutes_step: "query_mutes s \<Longrightarrow> query_mutes (step e s)"
  by (cases e)
    (auto simp: query_mutes_def transition_defs Let_def
      split: option.splits sum.splits list.splits)

lemma query_mutes_run: "query_mutes s \<Longrightarrow> query_mutes (run es s)"
  by (induction es arbitrary: s) (simp_all add: query_mutes_step)

lemma query_mutes_initial: "query_mutes initial_state"
  by (simp add: query_mutes_def initial_state_def)

text \<open>
  Claim C4. From the initial state, after every transition of every sequence of events
  (\<open>take k es\<close> is the sequence up to its \<open>k\<close>-th transition), \<^verbatim>\<open>recording\<close> implies that
  \<^verbatim>\<open>playback_enabled\<close> is clear; so a reply chunk that arrives while a query is being
  captured is not put on the playback queue: the handler returns with the state as it was.
\<close>

theorem recording_excludes_playback:
  "(recording (run (take k es) initial_state) \<longrightarrow>
      \<not> playback_enabled (run (take k es) initial_state)) \<and>
   (recording (run (take k es) initial_state) \<longrightarrow>
      on_server_audio_chunk data (run (take k es) initial_state) =
        Inr (run (take k es) initial_state))"
proof -
  have "query_mutes (run (take k es) initial_state)"
    by (rule query_mutes_run [OF query_mutes_initial])
  then show ?thesis
    by (simp add: query_mutes_def on_server_audio_chunk_def)
qed

theorem recording_excludes_playback_witness:
  "recording (run (take 2 [ToggleContext, StartQuery, StopQuery]) initial_state) \<and>
   \<not> playback_enabled (run (take 2 [ToggleContext, StartQuery, StopQuery]) initial_state) \<and>
   on_server_audio_chunk [1, 2]
       (run (take 2 [ToggleContext, StartQuery, StopQuery]) initial_state) =
     Inr (run (take 2 [ToggleContext, StartQuery, StopQuery]) initial_state)"
  using recording_excludes_playback [of 2 "[ToggleContext, StartQuery, StopQuery]" "[1, 2]"]
  by (simp add: initial_state_def transition_defs Let_def)

section \<open>Paused context and active context\<close>

text \<open>
  Switching context off during a query leaves \<^verbatim>\<open>context_paused\<close> set:
  \<^verbatim>\<open>stop_context_recording\<close> assigns \<^verbatim>\<open>context_active\<close> only.
\<close>

theorem paused_without_active_counterexample:
  "context_paused (run [ToggleContext, StartQuery, ToggleContext] initial_state) \<and>
   \<not> context_active (run [ToggleContext, StartQuery, ToggleContext] initial_state)"
  by (simp add: initial_state_def transition_defs Let_def)

lemma paused_is_active_step:
  "paused_is_active s \<Longrightarrow>
   \<not> (e = ToggleContext \<and> context_active s \<and> context_paused s) \<Longrightarrow>
   paused_is_active (step e s)"
  by (cases e)
    (auto simp: paused_is_active_def transition_defs Let_def
      split: option.splits sum.splits list.splits)

lemma paused_is_active_run:
  "paused_is_active s \<Longrightarrow> never_off_while_paused es s \<Longrightarrow>
   paused_is_active (run (take k es) s)"
proof (induction es arbitrary: s k)
  case Nil
  then show ?case by simp
next
  case (Cons e es)
  show ?case
  proof (cases k)
    case 0
    with Cons.prems show ?thesis by simp
  next
    case (Suc j)
    from Cons.prems have
      "paused_is_active (step e s)" "never_off_while_paused es (step e s)"
      by (auto intro: paused_is_active_step)
    then have "paused_is_active (run (take j es) (step e s))"
      by (rule Cons.IH)
    with Suc show ?thesis by simp
  qed
qed

text \<open>
  Claim C1, amended. From the initial state, for every sequence of events that never
  switches context off while it is paused, \<^verbatim>\<open>context_paused\<close> implies \<^verbatim>\<open>context_active\<close>
  after every transition. Switching context off clears \<^verbatim>\<open>context_active\<close> and leaves
  \<^verbatim>\<open>context_paused\<close> as it was.
\<close>

theorem paused_implies_active_unless_switched_off:
  "(never_off_while_paused es initial_state \<longrightarrow>
      (context_paused (run (take k es) initial_state) \<longrightarrow>
       context_active (run (take k es) initial_state))) \<and>
   (context_active s \<longrightarrow>
      \<not> context_active (toggle_context s) \<and>
      context_paused (toggle_context s) = context_paused s)"
proof -
  have "paused_is_active initial_state"
    by (simp add: paused_is_active_def initial_state_def)
  then have "never_off_while_paused es initial_state \<Longrightarrow>
      paused_is_active (run (take k es) initial_state)"
    by (rule paused_is_active_run)
  moreover have "context_active s \<Longrightarrow>
      \<not> context_active (toggle_context s) \<and>
      context_paused (toggle_context s) = context_paused s"
    by (simp add: transition_defs Let_def split: option.splits)
  ultimately show ?thesis
    by (auto simp: paused_is_active_def)
qed

theorem paused_implies_active_unless_switched_off_witness:
  "never_off_while_paused [ToggleContext, StartQuery, StopQuery, ReplyComplete, ToggleContext]
     initial_state \<and>
   context_paused
     (run (take 3 [ToggleContext, StartQuery, StopQuery, ReplyComplete, ToggleContext])
        initial_state) \<and>
   context_active
     (run (take 3 [ToggleContext, StartQuery, StopQuery, ReplyComplete, ToggleContext])
        initial_state) \<and>
   context_active (toggle_context initial_state) \<and>
   \<not> context_active (toggle_context (toggle_context initial_state))"
  using paused_implies_active_unless_switched_off
    [of "[ToggleContext, StartQuery, StopQuery, ReplyComplete, ToggleContext]" 3
      "toggle_context initial_state"]
  by (simp add: initial_state_def transition_defs Let_def)

section \<open>The query button\<close>

text \<open>
  Releasing the query button while context is paused: \<^verbatim>\<open>stop_recording\<close> does not assign
  \<^verbatim>\<open>context_paused\<close>, and it closes the stream it holds.
\<close>

theorem stop_recording_leaves_context_paused_counterexample:
  "recording (run [ToggleContext, StartQuery] initial_state) \<and>
   context_active (run [ToggleContext, StartQuery] initial_state) \<and>
   context_paused (stop_recording (run [ToggleContext, StartQuery] initial_state)) \<and>
   stream (stop_recording (run [ToggleContext, StartQuery] initial_state)) = None"
  by (simp add: initial_state_def transition_defs Let_def)

text \<open>
  Claim C2, amended. In every state with \<^verbatim>\<open>recording\<close> set, \<^verbatim>\<open>stop_recording\<close> clears
  \<^verbatim>\<open>recording\<close>, sends exactly the message \<^verbatim>\<open>audio_complete_query\<close>, leaves
  \<^verbatim>\<open>context_active\<close> and \<^verbatim>\<open>context_paused\<close> as they were, and sets \<^verbatim>\<open>playback_enabled\<close>.
  Context resumes later: when the server reports the end of its reply,
  \<^verbatim>\<open>on_server_audio_complete\<close> clears \<^verbatim>\<open>context_paused\<close> if context is active.
\<close>

theorem stop_recording_effect:
  assumes "recording s"
  shows "\<not> recording (stop_recording s) \<and>
    emits (new_effects s (stop_recording s)) = [(''audio_complete_query'', None)] \<and>
    context_active (stop_recording s) = context_active s \<and>
    context_paused (stop_recording s) = context_paused s \<and>
    playback_enabled (stop_recording s) \<and>
    (context_active s \<longrightarrow> \<not> context_paused (on_server_audio_complete (stop_recording s)))"
  using assms
  by (simp add: stop_recording_def on_server_audio_complete_def emit_def close_stream_def
      new_effects_def Let_def split: option.splits)

theorem stop_recording_effect_witness:
  "recording (run [ToggleContext, StartQuery] initial_state) \<and>
   \<not> recording (run [ToggleContext, StartQuery, StopQuery] initial_state) \<and>
   context_active (run [ToggleContext, StartQuery, StopQuery] initial_state) \<and>
   context_paused (run [ToggleContext, StartQuery, StopQuery] initial_state) \<and>
   playback_enabled (run [ToggleContext, StartQuery, StopQuery] initial_state) \<and>
   \<not> context_paused (run [ToggleContext, StartQuery, StopQuery, ReplyComplete] initial_state)"
  using stop_recording_effect [of "run [ToggleContext, StartQuery] initial_state"]
  by (simp add: initial_state_def transition_defs Let_def)

text \<open>
  Claim C3. In every state the client reaches from the initial state, whatever the events
  before, \<^verbatim>\<open>playback_enabled\<close> is clear once \<^verbatim>\<open>start_recording\<close> has returned (the early
  return under \<^verbatim>\<open>if recording\<close> is taken only where playback is already disabled). When
  \<^verbatim>\<open>recording\<close> was clear beforehand, in any state at all, the function clears
  \<^verbatim>\<open>playback_enabled\<close>, sends \<^verbatim>\<open>stop_server_stream\<close>, sets \<^verbatim>\<open>context_paused\<close> if context is
  active, opens and starts a capture stream, and sets \<^verbatim>\<open>recording\<close>.
\<close>

theorem start_recording_effect:
  "\<not> playback_enabled (start_recording (run es initial_state)) \<and>
   (\<not> recording s \<longrightarrow>
      \<not> playback_enabled (start_recording s) \<and>
      new_effects s (start_recording s) =
        [Emit ''stop_server_stream'' None,
         InputStream_open (next_sid s), Stream_start (next_sid s)] \<and>
      context_paused (start_recording s) =
        (if context_active s then True else context_paused s) \<and>
      context_active (start_recording s) = context_active s \<and>
      stream (start_recording s) = Some \<lparr>sid = next_sid s, active = True\<rparr> \<and>
      recording (start_recording s))"
proof -
  have "query_mutes (run es initial_state)"
    by (rule query_mutes_run [OF query_mutes_initial])
  then have "\<not> playback_enabled (start_recording (run es initial_state))"
    by (simp add: query_mutes_def start_recording_def emit_def new_input_stream_def Let_def)
  then show ?thesis
    by (simp add: start_recording_def emit_def new_input_stream_def new_effects_def Let_def)
qed

theorem start_recording_effect_witness:
  "playback_enabled
     (run [ToggleContext, StartQuery, StopQuery, ReplyComplete] initial_state) \<and>
   \<not> recording (run [ToggleContext, StartQuery, StopQuery, ReplyComplete] initial_state) \<and>
   \<not> context_paused
     (run [ToggleContext, StartQuery, StopQuery, ReplyComplete] initial_state) \<and>
   \<not> playback_enabled
     (start_recording
        (run [ToggleContext, StartQuery, StopQuery, ReplyComplete] initial_state)) \<and>
   context_paused
     (start_recording
        (run [ToggleContext, StartQuery, StopQuery, ReplyComplete] initial_state)) \<and>
   recording
     (start_recording
        (run [ToggleContext, StartQuery, StopQuery, ReplyComplete] initial_state)) \<and>
   new_effects (run [ToggleContext, StartQuery, StopQuery, ReplyComplete] initial_state)
     (start_recording
        (run [ToggleContext, StartQuery, StopQuery, ReplyComplete] initial_state)) =
     [Emit ''stop_server_stream'' None, InputStream_open 2, Stream_start 2]"
  using start_recording_effect
    [of "[ToggleContext, StartQuery, StopQuery, ReplyComplete]"
      "run [ToggleContext, StartQuery, StopQuery, ReplyComplete] initial_state"]
  by (simp add: initial_state_def transition_defs new_effects_def Let_def)

text \<open>
  Claim C8. An event whose guard fails changes nothing and returns normally:
  \<^verbatim>\<open>stop_recording\<close> with \<^verbatim>\<open>recording\<close> clear and \<^verbatim>\<open>start_recording\<close> with \<^verbatim>\<open>recording\<close> set
  return the state (flags, stream, queue and recorded effects) as it was; so do
  \<^verbatim>\<open>start_context_recording\<close> with context active and \<^verbatim>\<open>stop_context_recording\<close> with
  context inactive.
\<close>

theorem precondition_false_is_noop:
  "(\<not> recording s \<longrightarrow> stop_recording s = s) \<and>
   (recording s \<longrightarrow> start_recording s = s) \<and>
   (context_active s \<longrightarrow> start_context_recording s = s) \<and>
   (\<not> context_active s \<longrightarrow> stop_context_recording s = s)"
  by (simp add: start_recording_def stop_recording_def start_context_recording_def
      stop_context_recording_def)

theorem precondition_false_is_noop_witness:
  "\<not> recording initial_state \<and> stop_recording initial_state = initial_state \<and>
   recording (start_recording initial_state) \<and>
   start_recording (start_recording initial_state) = start_recording initial_state \<and>
   context_active (start_context_recording initial_state) \<and>
   start_context_recording (start_context_recording initial_state) =
     start_context_recording initial_state \<and>
   \<not> context_active initial_state \<and> stop_context_recording initial_state = initial_state"
  using precondition_false_is_noop [of initial_state]
    precondition_false_is_noop [of "start_recording initial_state"]
    precondition_false_is_noop [of "start_context_recording initial_state"]
  by (simp add: initial_state_def start_recording_def start_context_recording_def
      emit_def new_input_stream_def Let_def)

section \<open>Routing captured frames\<close>

text \<open>
  Claim C5. For every captured frame and every state, \<^verbatim>\<open>audio_callback\<close> sends the frame's
  bytes as \<^verbatim>\<open>audio_chunk_query\<close> exactly when \<^verbatim>\<open>recording\<close> is set, otherwise as
  \<^verbatim>\<open>audio_chunk_context\<close> exactly when context is active and not paused, and otherwise
  sends nothing; it changes nothing else. A frame captured during a query never goes to the
  context channel, and a frame captured outside a query never goes to the query channel.
\<close>

theorem audio_callback_routing:
  "new_effects s (audio_callback indata s) =
     (if recording s then [Emit ''audio_chunk_query'' (Some (tobytes indata))]
      else if context_active s \<and> \<not> context_paused s then
        [Emit ''audio_chunk_context'' (Some (tobytes indata))]
      else []) \<and>
   (Emit ''audio_chunk_query'' d \<in> set (new_effects s (audio_callback indata s)) \<longleftrightarrow>
      recording s \<and> d = Some (tobytes indata)) \<and>
   (Emit ''audio_chunk_context'' d \<in> set (new_effects s (audio_callback indata s)) \<longleftrightarrow>
      \<not> recording s \<and> context_active s \<and> \<not> context_paused s \<and>
      d = Some (tobytes indata)) \<and>
   audio_callback indata s =
     s\<lparr>effects := effects s @ new_effects s (audio_callback indata s)\<rparr>"
  by (auto simp: audio_callback_def emit_def new_effects_def Let_def)

theorem audio_callback_routing_witness:
  "new_effects (run [ToggleContext] initial_state)
     (audio_callback [513] (run [ToggleContext] initial_state)) =
     [Emit ''audio_chunk_context'' (Some [1, 2])] \<and>
   new_effects (run [ToggleContext, StartQuery] initial_state)
     (audio_callback [513] (run [ToggleContext, StartQuery] initial_state)) =
     [Emit ''audio_chunk_query'' (Some [1, 2])] \<and>
   new_effects (run [ToggleContext, StartQuery, StopQuery] initial_state)
     (audio_callback [513] (run [ToggleContext, StartQuery, StopQuery] initial_state)) = []"
  using audio_callback_routing [of "run [ToggleContext] initial_state" "[513]"]
    audio_callback_routing [of "run [ToggleContext, StartQuery] initial_state" "[513]"]
    audio_callback_routing [of "run [ToggleContext, StartQuery, StopQuery] initial_state" "[513]"]
  by (simp add: initial_state_def transition_defs new_effects_def Let_def)

section \<open>Gated playback\<close>







section \<open>Sending in chunks\<close>

text \<open>
  With a transport that accepts every call, the loop sends non-empty chunks of at most
  \<open>n\<close> bytes whose concatenation is the data from index \<open>i\<close> on.
\<close>

lemma emit_chunks_accepting:
  assumes "0 < n" and "\<forall>j. accepts j"
  shows "\<exists>cs. emit_chunks accepts n k i data = (map chunk_emit cs, Some (k + length cs)) \<and>
    concat cs = drop i data \<and> (\<forall>c \<in> set cs. 0 < length c \<and> length c \<le> n)"
  using assms
proof (induction accepts n k i data rule: emit_chunks.induct)
  case (1 accepts n k i data)
  show ?case
  proof (cases "i < length data")
    case False
    then have "emit_chunks accepts n k i data = ([], Some k)"
      using "1.prems"(1) by (subst emit_chunks.simps) simp
    with False show ?thesis by simp
  next
    case True
    with "1.prems" "1.IH" obtain cs where
      cs: "emit_chunks accepts n (Suc k) (i + n) data =
            (map chunk_emit cs, Some (Suc k + length cs))"
        "concat cs = drop (i + n) data" "\<forall>c \<in> set cs. 0 < length c \<and> length c \<le> n"
      by blast
    let ?c = "take n (drop i data)"
    have "emit_chunks accepts n k i data =
        (map chunk_emit (?c # cs), Some (k + length (?c # cs)))"
      using True "1.prems" cs(1) by (subst emit_chunks.simps) (simp add: chunk_emit_def)
    moreover have "concat (?c # cs) = drop i data"
      using cs(2) by (simp add: add.commute [of i n] flip: drop_drop)
    moreover have "\<forall>c \<in> set (?c # cs). 0 < length c \<and> length c \<le> n"
      using cs(3) True "1.prems" by simp
    ultimately show ?thesis by blast
  qed
qed

text \<open>Chunks of exactly the frame size are the frames.\<close>

lemma emit_chunks_frames:
  assumes "0 < m" and "\<forall>j. accepts j"
    and "\<forall>f \<in> set frames. length f = m" and "length pre = i"
  shows "payloads (fst (emit_chunks accepts m k i (pre @ concat frames))) = frames"
  using assms(3,4)
proof (induction frames arbitrary: pre i k)
  case Nil
  then show ?case by (subst emit_chunks.simps) simp
next
  case (Cons f fs)
  have len: "length f = m" and rest: "\<forall>f \<in> set fs. length f = m"
    using Cons.prems(1) by simp_all
  have "payloads (fst (emit_chunks accepts m (Suc k) (i + m) ((pre @ f) @ concat fs))) = fs"
    using rest by (rule Cons.IH) (simp add: len Cons.prems(2))
  then show ?case
    using assms(1,2) len Cons.prems(2)
    by (subst emit_chunks.simps) (simp add: split_beta)
qed

text \<open>
  Claim C7. For every sequence of frames and every positive chunk size \<open>n\<close>, on a transport
  that accepts the calls, joining the frames, sending the bytes in successive chunks and
  joining the chunks received, in order, gives back the joined frames. Every chunk is
  non-empty and at most \<open>n\<close> bytes long; a chunk size of at least the total length gives a
  single chunk holding everything; a chunk size equal to the common frame length gives back
  the frames themselves.
\<close>

theorem chunk_roundtrip:
  assumes "0 < n" and "\<forall>j. accepts j"
  shows "concat (payloads (fst (emit_chunks accepts n k 0 (concat frames)))) = concat frames \<and>
    (\<forall>c \<in> set (payloads (fst (emit_chunks accepts n k 0 (concat frames)))).
       0 < length c \<and> length c \<le> n) \<and>
    (length (concat frames) \<le> n \<and> concat frames \<noteq> [] \<longrightarrow>
       payloads (fst (emit_chunks accepts n k 0 (concat frames))) = [concat frames]) \<and>
    ((\<forall>f \<in> set frames. length f = n) \<longrightarrow>
       payloads (fst (emit_chunks accepts n k 0 (concat frames))) = frames)"
proof -
  obtain cs where cs:
    "emit_chunks accepts n k 0 (concat frames) = (map chunk_emit cs, Some (k + length cs))"
    "concat cs = drop 0 (concat frames)" "\<forall>c \<in> set cs. 0 < length c \<and> length c \<le> n"
    using emit_chunks_accepting [OF assms] by blast
  have p: "payloads (fst (emit_chunks accepts n k 0 (concat frames))) = cs"
    by (simp add: cs(1) payloads_chunk_emits)
  have single: "payloads (fst (emit_chunks accepts n k 0 (concat frames))) = [concat frames]"
    if "length (concat frames) \<le> n" "concat frames \<noteq> []"
  proof -
    have "emit_chunks accepts n (Suc k) (0 + n) (concat frames) = ([], Some (Suc k))"
      using that assms(1) by (subst emit_chunks.simps) simp
    then show ?thesis
      using that assms by (subst emit_chunks.simps) simp
  qed
  have framed: "payloads (fst (emit_chunks accepts n k 0 (concat frames))) = frames"
    if "\<forall>f \<in> set frames. length f = n"
    using emit_chunks_frames [OF assms that, of "[]" 0 k] by simp
  show ?thesis
    using p cs(2,3) single framed by simp
qed

theorem chunk_roundtrip_witness:
  "payloads (fst (emit_chunks (\<lambda>k. True) 2 0 0 (concat [[1, 2, 3], [4, 5, 6]]))) =
     [[1, 2], [3, 4], [5, 6]] \<and>
   payloads (fst (emit_chunks (\<lambda>k. True) 3 0 0 (concat [[1, 2, 3], [4, 5, 6]]))) =
     [[1, 2, 3], [4, 5, 6]] \<and>
   payloads (fst (emit_chunks (\<lambda>k. True) 7 0 0 (concat [[1, 2, 3], [4, 5, 6]]))) =
     [[1, 2, 3, 4, 5, 6]]"
  using chunk_roundtrip [of 2 "\<lambda>k. True" 0 "[[1, 2, 3], [4, 5, 6]]"]
    chunk_roundtrip [of 3 "\<lambda>k. True" 0 "[[1, 2, 3], [4, 5, 6]]"]
    chunk_roundtrip [of 7 "\<lambda>k. True" 0 "[[1, 2, 3], [4, 5, 6]]"]
  by (simp add: emit_chunks.simps)

text \<open>
  When the first emit raises, the handler ends the function: no further chunk and no
  \<^verbatim>\<open>audio_complete\<close> is sent.
\<close>

lemma send_audio_to_server_transport_failure:
  "send_audio_to_server (\<lambda>k. False) [[1, 2], [3]] = ([chunk_emit [1, 2, 3]], [])"
  by (simp add: send_audio_to_server_def emit_chunks.simps CHUNK_SIZE_def chunk_emit_def)

text \<open>A recording longer than one chunk.\<close>

lemma send_audio_to_server_two_chunks:
  "fst (send_audio_to_server (\<lambda>k. True) [replicate 5000 0]) =
     [Emit ''audio_chunk'' (Some (replicate 4096 0)),
      Emit ''audio_chunk'' (Some (replicate 904 0)),
      Emit ''audio_complete'' None]"
  by (simp add: send_audio_to_server_def emit_chunks.simps CHUNK_SIZE_def)



end
